theory Spec2Isabelle
  imports Complex_Main
begin

section \<open>Streaming anomaly detection: the model of AnomalyDetection.py\<close>

subsection \<open>Numbers\<close>

text \<open>
  The stream's values are Python floats. A float is either finite or one of the three
  special values. Arithmetic on finite values is taken over the reals: rounding and
  overflow to infinity are left out, and the inputs at which the code is shown to differ
  from a claim are chosen where the binary64 computation of the mean is exact. The
  special values follow IEEE 754, as Python and numpy compute them: NaN is contagious
  and compares false with everything.
\<close>

datatype pyfloat = Fin real | PInf | NInf | NaN

fun is_finite :: "pyfloat \<Rightarrow> bool" where
  "is_finite (Fin x) = True"
| "is_finite PInf = False"
| "is_finite NInf = False"
| "is_finite NaN = False"

fun fneg :: "pyfloat \<Rightarrow> pyfloat" where
  "fneg (Fin x) = Fin (- x)"
| "fneg PInf = NInf"
| "fneg NInf = PInf"
| "fneg NaN = NaN"

fun fadd :: "pyfloat \<Rightarrow> pyfloat \<Rightarrow> pyfloat" where
  "fadd (Fin x) (Fin y) = Fin (x + y)"
| "fadd NaN b = NaN"
| "fadd a NaN = NaN"
| "fadd PInf NInf = NaN"
| "fadd NInf PInf = NaN"
| "fadd PInf b = PInf"
| "fadd a PInf = PInf"
| "fadd NInf b = NInf"
| "fadd a NInf = NInf"

definition fsub :: "pyfloat \<Rightarrow> pyfloat \<Rightarrow> pyfloat" where
  "fsub a b = fadd a (fneg b)"

text \<open>The sign of an infinite product; zero times infinity is NaN.\<close>

definition inf_times :: "bool \<Rightarrow> real \<Rightarrow> pyfloat" where
  "inf_times positive x =
     (if x = 0 then NaN else if (0 < x) = positive then PInf else NInf)"

fun fmul :: "pyfloat \<Rightarrow> pyfloat \<Rightarrow> pyfloat" where
  "fmul (Fin x) (Fin y) = Fin (x * y)"
| "fmul NaN b = NaN"
| "fmul a NaN = NaN"
| "fmul PInf (Fin y) = inf_times True y"
| "fmul NInf (Fin y) = inf_times False y"
| "fmul (Fin x) PInf = inf_times True x"
| "fmul (Fin x) NInf = inf_times False x"
| "fmul PInf PInf = PInf"
| "fmul NInf NInf = PInf"
| "fmul PInf NInf = NInf"
| "fmul NInf PInf = NInf"

text \<open>
  Division of a float by an element count. Both divisions of \<open>update_mean_std\<close> divide
  by a count that is at least one (\<open>n + 1\<close>, and \<open>n\<close> under the guard \<open>n > 1\<close>), so the
  divisor is a positive integer and no ZeroDivisionError can arise.
\<close>

fun fdiv_count :: "pyfloat \<Rightarrow> nat \<Rightarrow> pyfloat" where
  "fdiv_count (Fin x) k = Fin (x / real k)"
| "fdiv_count PInf k = PInf"
| "fdiv_count NInf k = NInf"
| "fdiv_count NaN k = NaN"

text \<open>\<open>np.sqrt\<close>: NaN (with a warning, no exception) below zero.\<close>

fun fsqrt :: "pyfloat \<Rightarrow> pyfloat" where
  "fsqrt (Fin x) = (if x < 0 then NaN else Fin (sqrt x))"
| "fsqrt PInf = PInf"
| "fsqrt NInf = NaN"
| "fsqrt NaN = NaN"

fun flt :: "pyfloat \<Rightarrow> pyfloat \<Rightarrow> bool" where
  "flt (Fin x) (Fin y) = (x < y)"
| "flt NaN b = False"
| "flt a NaN = False"
| "flt NInf NInf = False"
| "flt NInf b = True"
| "flt a NInf = False"
| "flt PInf b = False"
| "flt a PInf = True"

definition fgt :: "pyfloat \<Rightarrow> pyfloat \<Rightarrow> bool" where
  "fgt a b = flt b a"

subsection \<open>Constants\<close>

definition WINDOW_SIZE :: nat where
  "WINDOW_SIZE = 40"

definition LOWER_BOUND :: int where
  "LOWER_BOUND = - 20"

definition UPPER_BOUND :: int where
  "UPPER_BOUND = 20"

definition DISPLAY_DURATION :: nat where
  "DISPLAY_DURATION = 40"

subsection \<open>collections.deque\<close>

text \<open>
  A deque is its optional bound and its elements, leftmost first. \<open>append\<close> on a bounded
  deque adds at the right and, when the bound is exceeded, discards the leftmost
  element. \<open>popleft\<close> removes the leftmost element and raises IndexError on an empty
  deque; the eviction loops below pop the head of the element lists and give \<open>None\<close>
  for that exception.
\<close>

record 'a deque =
  maxlen :: "nat option"
  items :: "'a list"

definition deque_new :: "nat option \<Rightarrow> 'a deque" where
  "deque_new m = \<lparr>maxlen = m, items = []\<rparr>"

definition deque_append :: "'a deque \<Rightarrow> 'a \<Rightarrow> 'a deque" where
  "deque_append d x =
     (let ys = items d @ [x] in
      case maxlen d of
        None \<Rightarrow> d\<lparr>items := ys\<rparr>
      | Some m \<Rightarrow> if m < length ys then d\<lparr>items := tl ys\<rparr> else d\<lparr>items := ys\<rparr>)"

subsection \<open>Running statistics (module globals)\<close>

record stats =
  window :: "pyfloat deque"
  mean :: pyfloat
  std_dev :: pyfloat

definition init_stats :: stats where
  "init_stats = \<lparr>window = deque_new (Some WINDOW_SIZE), mean = Fin 0, std_dev = Fin 1\<rparr>"

definition update_mean_std :: "pyfloat \<Rightarrow> stats \<Rightarrow> stats" where
  "update_mean_std new_value s =
     (let n = length (items (window s)) in
      if n = 0 then s\<lparr>mean := new_value, std_dev := Fin 0\<rparr>
      else
        let old_mean = mean s;
            mean' = fadd (mean s) (fdiv_count (fsub new_value old_mean) (n + 1));
            acc = fadd (std_dev s) (fmul (fsub new_value old_mean) (fsub new_value mean'));
            std' = (if 1 < n then fsqrt (fdiv_count acc n) else Fin 1)
        in s\<lparr>mean := mean', std_dev := std'\<rparr>)"

subsection \<open>Classification\<close>

text \<open>Comparisons of floats raise nothing, so the handler of the source is never entered.\<close>

definition detect_anomaly :: "pyfloat \<Rightarrow> pyfloat \<Rightarrow> bool \<Rightarrow> bool" where
  "detect_anomaly new_value previous_value is_generated_anomaly =
     (if is_generated_anomaly then True
      else if flt new_value (Fin (real_of_int LOWER_BOUND))
              \<or> fgt new_value (Fin (real_of_int UPPER_BOUND)) then True
      else False)"

subsection \<open>Eviction\<close>

text \<open>
  The loop of \<open>clean_old_data\<close> on the elements of the two deques. It pops both in step;
  \<open>None\<close> is the IndexError of popping an empty \<open>data_y\<close>.
\<close>

fun clean_loop :: "int list \<Rightarrow> 'a list \<Rightarrow> int \<Rightarrow> (int list \<times> 'a list) option" where
  "clean_loop [] ys current_time = Some ([], ys)"
| "clean_loop (x # xs) ys current_time =
     (if x < current_time - int WINDOW_SIZE then
        (case ys of [] \<Rightarrow> None | y # ys' \<Rightarrow> clean_loop xs ys' current_time)
      else Some (x # xs, ys))"

text \<open>The handler of \<open>clean_old_data\<close> answers an exception with two fresh unbounded deques.\<close>

definition clean_old_data :: "int deque \<Rightarrow> 'a deque \<Rightarrow> int \<Rightarrow> int deque \<times> 'a deque" where
  "clean_old_data data_x data_y current_time =
     (if items data_x = [] then (data_x, data_y)
      else case clean_loop (items data_x) (items data_y) current_time of
        None \<Rightarrow> (deque_new None, deque_new None)
      | Some (xs, ys) \<Rightarrow> (data_x\<lparr>items := xs\<rparr>, data_y\<lparr>items := ys\<rparr>))"

text \<open>
  The eviction loop of the anomaly deques, written inline in the main loop. It pops the
  three deques in step; an IndexError here is not handled locally and ends the main loop.
\<close>

fun clean_anomalies ::
  "int list \<Rightarrow> 'a list \<Rightarrow> 'b list \<Rightarrow> int \<Rightarrow> (int list \<times> 'a list \<times> 'b list) option" where
  "clean_anomalies [] ys ls current_time = Some ([], ys, ls)"
| "clean_anomalies (x # xs) ys ls current_time =
     (if x < current_time - int WINDOW_SIZE then
        (case ys of
           [] \<Rightarrow> None
         | y # ys' \<Rightarrow> (case ls of [] \<Rightarrow> None | l # ls' \<Rightarrow> clean_anomalies xs ys' ls' current_time))
      else Some (x # xs, ys, ls))"

subsection \<open>The main loop\<close>

record locals =
  data_x :: "int deque"
  data_y :: "pyfloat deque"
  anomaly_x :: "int deque"
  anomaly_y :: "pyfloat deque"
  anomaly_labels :: "string deque"
  previous_value :: pyfloat
  current_time :: int

definition init_locals :: locals where
  "init_locals =
     \<lparr>data_x = deque_new (Some DISPLAY_DURATION),
      data_y = deque_new (Some DISPLAY_DURATION),
      anomaly_x = deque_new (Some DISPLAY_DURATION),
      anomaly_y = deque_new (Some DISPLAY_DURATION),
      anomaly_labels = deque_new (Some DISPLAY_DURATION),
      previous_value = Fin 0,
      current_time = 0\<rparr>"

text \<open>Lines 167 and 168: the value enters the window, then the statistics are updated.\<close>

definition update_statistics :: "pyfloat \<Rightarrow> stats \<Rightarrow> stats" where
  "update_statistics new_value s =
     update_mean_std new_value (s\<lparr>window := deque_append (window s) new_value\<rparr>)"

text \<open>
  Lines 164, 171 to 187 and 206: what one pass of the loop does to the local variables.
  The formatting \<open>f"{new_value:.2f}"\<close> is Python's own and is the parameter \<open>fmt\<close>.
  The result \<open>None\<close> is an exception that leaves the loop.
\<close>

definition update_series ::
  "(pyfloat \<Rightarrow> string) \<Rightarrow> pyfloat \<Rightarrow> bool \<Rightarrow> locals \<Rightarrow> locals option" where
  "update_series fmt new_value is_generated_anomaly l =
     (let t = current_time l + 1;
          l1 = l\<lparr>current_time := t\<rparr>;
          l2 = (if detect_anomaly new_value (previous_value l1) is_generated_anomaly
                then l1\<lparr>anomaly_x := deque_append (anomaly_x l1) t,
                       anomaly_y := deque_append (anomaly_y l1) new_value,
                       anomaly_labels := deque_append (anomaly_labels l1) (fmt new_value)\<rparr>
                else l1);
          l3 = l2\<lparr>data_x := deque_append (data_x l2) t,
                  data_y := deque_append (data_y l2) new_value\<rparr>;
          (dx, dy) = clean_old_data (data_x l3) (data_y l3) t;
          l4 = l3\<lparr>data_x := dx, data_y := dy\<rparr>
      in case clean_anomalies (items (anomaly_x l4)) (items (anomaly_y l4))
                (items (anomaly_labels l4)) t of
           None \<Rightarrow> None
         | Some (ax, ay, al) \<Rightarrow>
             Some (l4\<lparr>anomaly_x := (anomaly_x l4)\<lparr>items := ax\<rparr>,
                      anomaly_y := (anomaly_y l4)\<lparr>items := ay\<rparr>,
                      anomaly_labels := (anomaly_labels l4)\<lparr>items := al\<rparr>,
                      previous_value := new_value\<rparr>))"

text \<open>
  One pass of the loop of \<open>run_anomaly_detection\<close> for one pair of the stream. The
  statistics and the local variables are disjoint, and the update of the statistics
  raises nothing, so the pass is the two updates side by side.
\<close>

definition loop_body ::
  "(pyfloat \<Rightarrow> string) \<Rightarrow> pyfloat \<times> bool \<Rightarrow> stats \<times> locals \<Rightarrow> (stats \<times> locals) option" where
  "loop_body fmt inp s =
     (case update_series fmt (fst inp) (snd inp) (snd s) of
        None \<Rightarrow> None
      | Some l' \<Rightarrow> Some (update_statistics (fst inp) (fst s), l'))"

text \<open>
  The stream is endless; the state after its first \<open>k\<close> pairs is the run over that
  prefix, from the initial state of the module and of \<open>run_anomaly_detection\<close>.
\<close>

fun run ::
  "(pyfloat \<Rightarrow> string) \<Rightarrow> (pyfloat \<times> bool) list \<Rightarrow> stats \<times> locals \<Rightarrow> (stats \<times> locals) option" where
  "run fmt [] s = Some s"
| "run fmt (inp # inps) s =
     (case loop_body fmt inp s of None \<Rightarrow> None | Some s' \<Rightarrow> run fmt inps s')"

definition init_state :: "stats \<times> locals" where
  "init_state = (init_stats, init_locals)"

subsection \<open>Projections of a run\<close>

text \<open>
  The statistics and the local variables evolve independently of each other. The two
  functions below follow each half of the state through a run.
\<close>

fun run_series ::
  "(pyfloat \<Rightarrow> string) \<Rightarrow> (pyfloat \<times> bool) list \<Rightarrow> locals \<Rightarrow> locals option" where
  "run_series fmt [] l = Some l"
| "run_series fmt (inp # inps) l =
     (case update_series fmt (fst inp) (snd inp) l of
        None \<Rightarrow> None
      | Some l' \<Rightarrow> run_series fmt inps l')"

fun run_stats :: "pyfloat list \<Rightarrow> stats \<Rightarrow> stats" where
  "run_stats [] s = s"
| "run_stats (v # vs) s = run_stats vs (update_statistics v s)"

subsection \<open>Provenance of an anomaly record\<close>

text \<open>
  The value of \<open>previous_value\<close> at tick \<open>x\<close>, and what it means that the entries
  \<open>x\<close>, \<open>y\<close>, \<open>lab\<close> of the three anomaly deques come from the sample of tick \<open>x\<close> of the
  stream \<open>ins\<close>: the tick exists, the sample was classified as an anomaly, \<open>y\<close> is its
  value and \<open>lab\<close> its rendering.
\<close>

definition prev_value :: "(pyfloat \<times> bool) list \<Rightarrow> int \<Rightarrow> pyfloat" where
  "prev_value ins x = (if x \<le> 1 then Fin 0 else fst (ins ! nat (x - 2)))"

definition produced ::
  "(pyfloat \<Rightarrow> string) \<Rightarrow> (pyfloat \<times> bool) list \<Rightarrow> int \<Rightarrow> pyfloat \<Rightarrow> string \<Rightarrow> bool" where
  "produced fmt ins x y lab \<longleftrightarrow>
     1 \<le> x \<and> x \<le> int (length ins) \<and>
     y = fst (ins ! nat (x - 1)) \<and> lab = fmt (fst (ins ! nat (x - 1))) \<and>
     detect_anomaly (fst (ins ! nat (x - 1))) (prev_value ins x) (snd (ins ! nat (x - 1)))"

subsection \<open>Invariants of the local variables\<close>

definition series_inv :: "locals \<Rightarrow> bool" where
  "series_inv l \<longleftrightarrow>
     maxlen (data_x l) = Some 40 \<and> maxlen (data_y l) = Some 40 \<and>
     maxlen (anomaly_x l) = Some 40 \<and> maxlen (anomaly_y l) = Some 40 \<and>
     maxlen (anomaly_labels l) = Some 40 \<and>
     0 \<le> current_time l \<and>
     items (data_x l) = [max 1 (current_time l - 39)..current_time l] \<and>
     length (items (data_y l)) = length (items (data_x l)) \<and>
     length (items (anomaly_y l)) = length (items (anomaly_x l)) \<and>
     length (items (anomaly_labels l)) = length (items (anomaly_x l)) \<and>
     length (items (anomaly_x l)) \<le> 40"

definition hist_inv :: "(pyfloat \<Rightarrow> string) \<Rightarrow> (pyfloat \<times> bool) list \<Rightarrow> locals \<Rightarrow> bool" where
  "hist_inv fmt ins l \<longleftrightarrow>
     current_time l = int (length ins) \<and>
     items (data_y l) = map fst (drop (length ins - 40) ins) \<and>
     sorted_wrt (<) (items (anomaly_x l)) \<and>
     (\<forall>i < length (items (anomaly_x l)).
        produced fmt ins (items (anomaly_x l) ! i) (items (anomaly_y l) ! i)
          (items (anomaly_labels l) ! i))"

section \<open>Auxiliary facts\<close>

subsection \<open>Classification and eviction loops\<close>

lemma detect_anomaly_prev: "detect_anomaly v p g = detect_anomaly v q g"
  by (simp add: detect_anomaly_def)

lemma clean_loop_keep:
  "xs \<noteq> [] \<Longrightarrow> \<not> hd xs < t - int WINDOW_SIZE \<Longrightarrow> clean_loop xs ys t = Some (xs, ys)"
  by (cases xs) simp_all

lemma clean_anomalies_drop:
  "length ys = length xs \<Longrightarrow> length ls = length xs \<Longrightarrow>
   \<exists>k. clean_anomalies xs ys ls t = Some (drop k xs, drop k ys, drop k ls)
     \<and> (\<forall>x \<in> set (take k xs). x < t - int WINDOW_SIZE)"
proof (induction xs arbitrary: ys ls)
  case Nil
  then show ?case by simp
next
  case (Cons x xs)
  from Cons.prems obtain y ys' l ls' where ys: "ys = y # ys'" and ls: "ls = l # ls'"
    by (cases ys; cases ls) auto
  show ?case
  proof (cases "x < t - int WINDOW_SIZE")
    case True
    from Cons.prems ys ls have "length ys' = length xs" "length ls' = length xs" by simp_all
    from Cons.IH[OF this] obtain k where
      k: "clean_anomalies xs ys' ls' t = Some (drop k xs, drop k ys', drop k ls')"
         "\<forall>x \<in> set (take k xs). x < t - int WINDOW_SIZE" by blast
    have "clean_anomalies (x # xs) ys ls t
            = Some (drop (Suc k) (x # xs), drop (Suc k) ys, drop (Suc k) ls)"
      using True k(1) ys ls by simp
    moreover have "\<forall>z \<in> set (take (Suc k) (x # xs)). z < t - int WINDOW_SIZE"
      using True k(2) by simp
    ultimately show ?thesis by blast
  next
    case False
    then have "clean_anomalies (x # xs) ys ls t = Some (drop 0 (x # xs), drop 0 ys, drop 0 ls)"
      by simp
    moreover have "\<forall>z \<in> set (take 0 (x # xs)). z < t - int WINDOW_SIZE" by simp
    ultimately show ?thesis by blast
  qed
qed

lemma upto_snoc: "i \<le> j + 1 \<Longrightarrow> [i..j] @ [j + 1] = [i..j + 1]"
  by (simp add: upto_rec2)

lemma tl_upto: "tl [i..j] = [i + 1..j]"
  by (cases "i \<le> j") (simp_all add: upto.simps)

lemma window_upto_step:
  assumes "0 \<le> t"
  shows "(let ys = [max 1 (t - 39)..t] @ [t + 1] in if 40 < length ys then tl ys else ys)
           = [max 1 (t + 1 - 39)..t + 1]"
proof -
  have snoc: "[max 1 (t - 39)..t] @ [t + 1] = [max 1 (t - 39)..t + 1]"
    using assms by (intro upto_snoc) simp
  show ?thesis
  proof (cases "40 \<le> t")
    case True
    then have "max 1 (t - 39) = t - 39" "max 1 (t + 1 - 39) = t - 39 + 1" by simp_all
    then show ?thesis using True snoc by (simp add: tl_upto Let_def)
  next
    case False
    then have "max 1 (t - 39) = 1" "max 1 (t + 1 - 39) = 1" by simp_all
    then show ?thesis using False snoc assms by (simp add: Let_def)
  qed
qed

subsection \<open>The deques\<close>

lemma maxlen_deque_append [simp]: "maxlen (deque_append d x) = maxlen d"
  by (simp add: deque_append_def Let_def split: option.splits)

lemma tl_eq_drop: "tl ys = drop (Suc 0) ys"
  by (cases ys) simp_all

lemma items_deque_append:
  "maxlen d = Some m \<Longrightarrow>
   items (deque_append d x) = drop (if m < Suc (length (items d)) then Suc 0 else 0) (items d @ [x])"
  unfolding deque_append_def Let_def by (simp add: tl_eq_drop del: drop_append)

lemma series_inv_init: "series_inv init_locals"
  by (simp add: series_inv_def init_locals_def deque_new_def DISPLAY_DURATION_def)

lemma data_append_upto:
  assumes "maxlen d = Some 40" "items d = [max 1 (t - 39)..t]" "0 \<le> t"
  shows "items (deque_append d (t + 1)) = [max 1 (t + 1 - 39)..t + 1]"
proof -
  have "items (deque_append d (t + 1))
          = (let ys = [max 1 (t - 39)..t] @ [t + 1] in if 40 < length ys then tl ys else ys)"
    unfolding deque_append_def Let_def using assms(1,2) by simp
  then show ?thesis
    by (simp only: window_upto_step[OF assms(3)])
qed

lemma clean_old_data_keep:
  assumes "items dx = [max 1 (t - 39)..t]" "1 \<le> t"
  shows "clean_old_data dx dy t = (dx, dy)"
proof -
  have ne: "items dx \<noteq> []" using assms by simp
  have "hd (items dx) = max 1 (t - 39)" using assms by (simp add: upto.simps)
  then have "\<not> hd (items dx) < t - int WINDOW_SIZE" by (simp add: WINDOW_SIZE_def)
  from clean_loop_keep[OF ne this, of "items dy"] show ?thesis
    using ne by (simp add: clean_old_data_def)
qed

subsection \<open>One pass of the loop\<close>

lemma take_all_small_last:
  assumes "\<forall>x \<in> set (take k xs). x < (c::int)" "xs \<noteq> []" "\<not> last xs < c"
  shows "k < length xs"
proof (rule ccontr)
  assume "\<not> k < length xs"
  then have "take k xs = xs" by simp
  with assms(1) have "\<forall>x \<in> set xs. x < c" by simp
  with assms(2) have "last xs < c" by simp
  with assms(3) show False by simp
qed

lemma update_series_step:
  assumes inv: "series_inv l"
  shows "\<exists>j l'. update_series fmt v g l = Some l' \<and> series_inv l' \<and>
     current_time l' = current_time l + 1 \<and> previous_value l' = v \<and>
     items (data_y l') = items (deque_append (data_y l) v) \<and>
     (if detect_anomaly v (previous_value l) g then
        j \<le> length (items (anomaly_x l)) \<and>
        items (anomaly_x l') = drop j (items (anomaly_x l) @ [current_time l + 1]) \<and>
        items (anomaly_y l') = drop j (items (anomaly_y l) @ [v]) \<and>
        items (anomaly_labels l') = drop j (items (anomaly_labels l) @ [fmt v])
      else
        items (anomaly_x l') = drop j (items (anomaly_x l)) \<and>
        items (anomaly_y l') = drop j (items (anomaly_y l)) \<and>
        items (anomaly_labels l') = drop j (items (anomaly_labels l)))"
proof -
  define t where "t = current_time l + 1"
  define dx1 where "dx1 = deque_append (data_x l) t"
  define dy1 where "dy1 = deque_append (data_y l) v"
  from inv have mx: "maxlen (data_x l) = Some 40" "maxlen (data_y l) = Some 40"
    "maxlen (anomaly_x l) = Some 40" "maxlen (anomaly_y l) = Some 40"
    "maxlen (anomaly_labels l) = Some 40"
    and t0: "0 \<le> current_time l"
    and dx: "items (data_x l) = [max 1 (current_time l - 39)..current_time l]"
    and dylen: "length (items (data_y l)) = length (items (data_x l))"
    and aylen: "length (items (anomaly_y l)) = length (items (anomaly_x l))"
    and allen: "length (items (anomaly_labels l)) = length (items (anomaly_x l))"
    and axlen: "length (items (anomaly_x l)) \<le> 40"
    by (simp_all add: series_inv_def)
  have dx1: "items dx1 = [max 1 (t - 39)..t]"
    unfolding dx1_def t_def by (rule data_append_upto[OF mx(1) dx t0])
  have t1: "1 \<le> t" using t0 by (simp add: t_def)
  have keep: "clean_old_data dx1 dy1 t = (dx1, dy1)"
    by (rule clean_old_data_keep[OF dx1 t1])
  have dy1len: "length (items dy1) = length (items dx1)"
    unfolding dx1_def dy1_def
    by (simp add: items_deque_append[OF mx(1)] items_deque_append[OF mx(2)] dylen)
  show ?thesis
  proof (cases "detect_anomaly v (previous_value l) g")
    case True
    define j0 where "j0 = (if 40 < Suc (length (items (anomaly_x l))) then Suc 0 else 0)"
    define ax1 where "ax1 = deque_append (anomaly_x l) t"
    define ay1 where "ay1 = deque_append (anomaly_y l) v"
    define al1 where "al1 = deque_append (anomaly_labels l) (fmt v)"
    have ax1: "items ax1 = drop j0 (items (anomaly_x l) @ [t])"
      unfolding ax1_def j0_def by (rule items_deque_append[OF mx(3)])
    have ay1: "items ay1 = drop j0 (items (anomaly_y l) @ [v])"
      unfolding ay1_def j0_def aylen[symmetric] by (rule items_deque_append[OF mx(4)])
    have al1: "items al1 = drop j0 (items (anomaly_labels l) @ [fmt v])"
      unfolding al1_def j0_def allen[symmetric] by (rule items_deque_append[OF mx(5)])
    have j0: "j0 \<le> length (items (anomaly_x l))" "length (items (anomaly_x l)) + 1 - j0 \<le> 40"
      using axlen by (auto simp: j0_def)
    have ne: "items ax1 \<noteq> []" using j0 by (simp add: ax1)
    have lst: "last (items ax1) = t" using j0 by (simp add: ax1)
    have l1: "length (items ay1) = length (items ax1)" by (simp add: ax1 ay1 aylen)
    have l2: "length (items al1) = length (items ax1)" by (simp add: ax1 al1 allen)
    from clean_anomalies_drop[OF l1 l2, of t] obtain k where
      k: "clean_anomalies (items ax1) (items ay1) (items al1) t
            = Some (drop k (items ax1), drop k (items ay1), drop k (items al1))"
      and small: "\<forall>x \<in> set (take k (items ax1)). x < t - int WINDOW_SIZE" by blast
    have "\<not> last (items ax1) < t - int WINDOW_SIZE" by (simp add: lst)
    from take_all_small_last[OF small ne this] have klt: "k < length (items ax1)" .
    define l' where "l' = l\<lparr>current_time := t, data_x := dx1, data_y := dy1,
        anomaly_x := ax1\<lparr>items := drop k (items ax1)\<rparr>,
        anomaly_y := ay1\<lparr>items := drop k (items ay1)\<rparr>,
        anomaly_labels := al1\<lparr>items := drop k (items al1)\<rparr>,
        previous_value := v\<rparr>"
    have step: "update_series fmt v g l = Some l'"
      using True keep k
      unfolding update_series_def Let_def l'_def ax1_def ay1_def al1_def dx1_def dy1_def t_def
      by simp
    have m': "maxlen dx1 = Some 40" "maxlen dy1 = Some 40" "maxlen ax1 = Some 40"
      "maxlen ay1 = Some 40" "maxlen al1 = Some 40"
      by (simp_all add: dx1_def dy1_def ax1_def ay1_def al1_def mx)
    have "length (items ax1) \<le> 40" using j0 by (simp add: ax1)
    then have len': "length (drop k (items ax1)) \<le> 40" by simp
    have inv': "series_inv l'"
      using m' dx1 dy1len t1 l1 l2 len'
      by (simp add: series_inv_def l'_def)
    have jle: "k + j0 \<le> length (items (anomaly_x l))"
      using klt j0 by (simp add: ax1)
    have "items (anomaly_x l') = drop (k + j0) (items (anomaly_x l) @ [t])"
      "items (anomaly_y l') = drop (k + j0) (items (anomaly_y l) @ [v])"
      "items (anomaly_labels l') = drop (k + j0) (items (anomaly_labels l) @ [fmt v])"
      by (simp_all add: l'_def ax1 ay1 al1 del: drop_append)
    moreover have "current_time l' = current_time l + 1" "previous_value l' = v"
      "items (data_y l') = items (deque_append (data_y l) v)"
      by (simp_all add: l'_def t_def dy1_def)
    ultimately show ?thesis
      using step inv' jle True unfolding t_def by (intro exI[of _ "k + j0"] exI[of _ l']) simp
  next
    case False
    from clean_anomalies_drop[OF aylen allen, of t] obtain k where
      k: "clean_anomalies (items (anomaly_x l)) (items (anomaly_y l)) (items (anomaly_labels l)) t
            = Some (drop k (items (anomaly_x l)), drop k (items (anomaly_y l)),
                    drop k (items (anomaly_labels l)))" by blast
    define l' where "l' = l\<lparr>current_time := t, data_x := dx1, data_y := dy1,
        anomaly_x := (anomaly_x l)\<lparr>items := drop k (items (anomaly_x l))\<rparr>,
        anomaly_y := (anomaly_y l)\<lparr>items := drop k (items (anomaly_y l))\<rparr>,
        anomaly_labels := (anomaly_labels l)\<lparr>items := drop k (items (anomaly_labels l))\<rparr>,
        previous_value := v\<rparr>"
    have step: "update_series fmt v g l = Some l'"
      using False keep k
      unfolding update_series_def Let_def l'_def dx1_def dy1_def t_def
      by simp
    have m': "maxlen dx1 = Some 40" "maxlen dy1 = Some 40"
      by (simp_all add: dx1_def dy1_def mx)
    have inv': "series_inv l'"
      using mx(3-5) m' dx1 dy1len t1 aylen allen axlen
      by (simp add: series_inv_def l'_def)
    have "items (anomaly_x l') = drop k (items (anomaly_x l))"
      "items (anomaly_y l') = drop k (items (anomaly_y l))"
      "items (anomaly_labels l') = drop k (items (anomaly_labels l))"
      "current_time l' = current_time l + 1" "previous_value l' = v"
      "items (data_y l') = items (deque_append (data_y l) v)"
      by (simp_all add: l'_def t_def dy1_def)
    then show ?thesis
      using step inv' False by (intro exI[of _ k] exI[of _ l']) simp
  qed
qed

subsection \<open>Runs\<close>

lemma run_split:
  "run fmt inps (st, l) = map_option (Pair (run_stats (map fst inps) st)) (run_series fmt inps l)"
  by (induction inps arbitrary: st l) (simp_all add: loop_body_def split: option.splits)

lemma run_series_snoc:
  "run_series fmt (inps @ [inp]) l =
     (case run_series fmt inps l of
        None \<Rightarrow> None
      | Some l' \<Rightarrow> update_series fmt (fst inp) (snd inp) l')"
  by (induction inps arbitrary: l) (simp_all split: option.splits)

lemma run_stats_snoc: "run_stats (vs @ [v]) s = update_statistics v (run_stats vs s)"
  by (induction vs arbitrary: s) simp_all

lemma produced_mono: "produced fmt ins x y lab \<Longrightarrow> produced fmt (ins @ [inp]) x y lab"
proof -
  assume p: "produced fmt ins x y lab"
  then have x: "1 \<le> x" "x \<le> int (length ins)" by (simp_all add: produced_def)
  then have lt: "nat (x - 1) < length ins" "nat (x - 2) < length ins" by linarith+
  then have a: "(ins @ [inp]) ! nat (x - 1) = ins ! nat (x - 1)"
    by (simp add: nth_append)
  have b: "prev_value (ins @ [inp]) x = prev_value ins x"
    using lt by (simp add: prev_value_def nth_append)
  show ?thesis using p x by (simp add: produced_def a b)
qed

lemma produced_new:
  assumes "detect_anomaly v p g"
  shows "produced fmt (ins @ [(v, g)]) (int (length ins) + 1) v (fmt v)"
proof -
  have "detect_anomaly v (prev_value (ins @ [(v, g)]) (int (length ins) + 1)) g"
    using assms detect_anomaly_prev by blast
  then show ?thesis by (simp add: produced_def)
qed

lemma data_y_step:
  assumes "maxlen d = Some 40" "items d = map fst (drop (length ins - 40) ins)"
  shows "items (deque_append d v) = map fst (drop (length (ins @ [(v, g)]) - 40) (ins @ [(v, g)]))"
proof (cases "40 \<le> length ins")
  case True
  then have e: "Suc (length ins - 40) - length ins = 0" "length ins - 39 = Suc (length ins - 40)"
    by simp_all
  have "items (deque_append d v) = drop (Suc 0) (map fst (drop (length ins - 40) ins) @ [v])"
    using True assms by (simp add: items_deque_append[OF assms(1)] del: drop_append)
  also have "\<dots> = drop (Suc 0) (map fst (drop (length ins - 40) (ins @ [(v, g)])))"
    by simp
  also have "\<dots> = map fst (drop (Suc (length ins - 40)) (ins @ [(v, g)]))"
    by (simp only: drop_map drop_drop) simp
  finally show ?thesis using True e
    by (simp add: Suc_diff_le)
next
  case False
  then show ?thesis
    using assms by (simp add: items_deque_append[OF assms(1)])
qed

subsection \<open>The invariants along a run\<close>

lemma aligned_drop:
  assumes "\<forall>i < length xs. P (xs ! i) (ys ! i) (ls ! i)"
    and "length ys = length xs" and "length ls = length xs"
  shows "\<forall>i < length (drop j xs). P (drop j xs ! i) (drop j ys ! i) (drop j ls ! i)"
proof (intro allI impI)
  fix i assume "i < length (drop j xs)"
  then have "j + i < length xs" by simp
  with assms show "P (drop j xs ! i) (drop j ys ! i) (drop j ls ! i)"
    by simp
qed

lemma aligned_snoc:
  assumes "\<forall>i < length xs. P (xs ! i) (ys ! i) (ls ! i)"
    and "length ys = length xs" and "length ls = length xs" and "P x y lab"
  shows "\<forall>i < length (xs @ [x]). P ((xs @ [x]) ! i) ((ys @ [y]) ! i) ((ls @ [lab]) ! i)"
  using assms by (auto simp: nth_append less_Suc_eq)

lemma sorted_snoc_drop:
  assumes "sorted_wrt (<) xs" "\<forall>x \<in> set xs. x < (t::int)"
  shows "sorted_wrt (<) (drop j (xs @ [t]))"
proof -
  have "sorted_wrt (<) (xs @ [t])" using assms by (simp add: sorted_wrt_append)
  then show ?thesis by (rule sorted_wrt_drop)
qed

lemma hist_step:
  assumes inv: "series_inv l" and hist: "hist_inv fmt ins l"
  shows "\<exists>l'. update_series fmt v g l = Some l' \<and> series_inv l' \<and>
           hist_inv fmt (ins @ [(v, g)]) l'"
proof -
  from update_series_step[OF inv, of fmt v g] obtain j l' where
    step: "update_series fmt v g l = Some l'" and inv': "series_inv l'"
    and ct: "current_time l' = current_time l + 1"
    and dy: "items (data_y l') = items (deque_append (data_y l) v)"
    and an: "if detect_anomaly v (previous_value l) g then
        j \<le> length (items (anomaly_x l)) \<and>
        items (anomaly_x l') = drop j (items (anomaly_x l) @ [current_time l + 1]) \<and>
        items (anomaly_y l') = drop j (items (anomaly_y l) @ [v]) \<and>
        items (anomaly_labels l') = drop j (items (anomaly_labels l) @ [fmt v])
      else
        items (anomaly_x l') = drop j (items (anomaly_x l)) \<and>
        items (anomaly_y l') = drop j (items (anomaly_y l)) \<and>
        items (anomaly_labels l') = drop j (items (anomaly_labels l))"
    by blast
  let ?ins = "ins @ [(v, g)]"
  from hist have t: "current_time l = int (length ins)"
    and hy: "items (data_y l) = map fst (drop (length ins - 40) ins)"
    and srt: "sorted_wrt (<) (items (anomaly_x l))"
    and prod: "\<forall>i < length (items (anomaly_x l)).
        produced fmt ins (items (anomaly_x l) ! i) (items (anomaly_y l) ! i)
          (items (anomaly_labels l) ! i)"
    by (simp_all add: hist_inv_def)
  from inv have my: "maxlen (data_y l) = Some 40"
    and aylen: "length (items (anomaly_y l)) = length (items (anomaly_x l))"
    and allen: "length (items (anomaly_labels l)) = length (items (anomaly_x l))"
    by (simp_all add: series_inv_def)
  have c1: "current_time l' = int (length ?ins)" using ct t by simp
  have c2: "items (data_y l') = map fst (drop (length ?ins - 40) ?ins)"
    unfolding dy by (rule data_y_step[OF my hy])
  have prod': "\<forall>i < length (items (anomaly_x l)).
        produced fmt ?ins (items (anomaly_x l) ! i) (items (anomaly_y l) ! i)
          (items (anomaly_labels l) ! i)"
    using prod produced_mono by blast
  have bound: "\<forall>x \<in> set (items (anomaly_x l)). x < current_time l + 1"
  proof
    fix x assume "x \<in> set (items (anomaly_x l))"
    then obtain i where "i < length (items (anomaly_x l))" "x = items (anomaly_x l) ! i"
      by (auto simp: in_set_conv_nth)
    with prod have "x \<le> int (length ins)" by (simp add: produced_def)
    then show "x < current_time l + 1" using t by simp
  qed
  have c34: "sorted_wrt (<) (items (anomaly_x l')) \<and>
     (\<forall>i < length (items (anomaly_x l')).
        produced fmt ?ins (items (anomaly_x l') ! i) (items (anomaly_y l') ! i)
          (items (anomaly_labels l') ! i))"
  proof (cases "detect_anomaly v (previous_value l) g")
    case True
    with an have eqs: "items (anomaly_x l') = drop j (items (anomaly_x l) @ [current_time l + 1])"
      "items (anomaly_y l') = drop j (items (anomaly_y l) @ [v])"
      "items (anomaly_labels l') = drop j (items (anomaly_labels l) @ [fmt v])" by simp_all
    have new: "produced fmt ?ins (current_time l + 1) v (fmt v)"
      unfolding t by (rule produced_new[OF True])
    have "\<forall>i < length (items (anomaly_x l) @ [current_time l + 1]).
        produced fmt ?ins ((items (anomaly_x l) @ [current_time l + 1]) ! i)
          ((items (anomaly_y l) @ [v]) ! i) ((items (anomaly_labels l) @ [fmt v]) ! i)"
      by (rule aligned_snoc[OF prod' aylen allen new])
    then have "\<forall>i < length (drop j (items (anomaly_x l) @ [current_time l + 1])).
        produced fmt ?ins (drop j (items (anomaly_x l) @ [current_time l + 1]) ! i)
          (drop j (items (anomaly_y l) @ [v]) ! i) (drop j (items (anomaly_labels l) @ [fmt v]) ! i)"
      by (rule aligned_drop) (simp_all add: aylen allen)
    moreover have "sorted_wrt (<) (drop j (items (anomaly_x l) @ [current_time l + 1]))"
      by (rule sorted_snoc_drop[OF srt bound])
    ultimately show ?thesis unfolding eqs by blast
  next
    case False
    with an have eqs: "items (anomaly_x l') = drop j (items (anomaly_x l))"
      "items (anomaly_y l') = drop j (items (anomaly_y l))"
      "items (anomaly_labels l') = drop j (items (anomaly_labels l))" by simp_all
    have "\<forall>i < length (drop j (items (anomaly_x l))).
        produced fmt ?ins (drop j (items (anomaly_x l)) ! i)
          (drop j (items (anomaly_y l)) ! i) (drop j (items (anomaly_labels l)) ! i)"
      by (rule aligned_drop[OF prod' aylen allen])
    moreover have "sorted_wrt (<) (drop j (items (anomaly_x l)))"
      using srt by (rule sorted_wrt_drop)
    ultimately show ?thesis unfolding eqs by blast
  qed
  have "hist_inv fmt ?ins l'"
    unfolding hist_inv_def using c1 c2 c34 by blast
  with step inv' show ?thesis by blast
qed

lemma hist_inv_init: "hist_inv fmt [] init_locals"
  by (simp add: hist_inv_def init_locals_def deque_new_def)

lemma run_series_inv:
  "\<exists>l. run_series fmt ins init_locals = Some l \<and> series_inv l \<and> hist_inv fmt ins l"
proof (induction ins rule: rev_induct)
  case Nil
  show ?case by (simp add: series_inv_init hist_inv_init)
next
  case (snoc inp ins)
  then obtain l where l: "run_series fmt ins init_locals = Some l" "series_inv l"
    "hist_inv fmt ins l" by blast
  from hist_step[OF l(2,3), of "fst inp" "snd inp"] obtain l' where
    "update_series fmt (fst inp) (snd inp) l = Some l'" "series_inv l'"
    "hist_inv fmt (ins @ [inp]) l'" by auto
  then show ?case using l(1) by (simp add: run_series_snoc)
qed

lemma run_total:
  "\<exists>l. run fmt ins init_state = Some (run_stats (map fst ins) init_stats, l)
     \<and> run_series fmt ins init_locals = Some l \<and> series_inv l \<and> hist_inv fmt ins l"
  using run_series_inv[of fmt ins] by (auto simp: run_split init_state_def)

subsection \<open>Evaluation and non-finite values\<close>

lemmas series_eval = update_series_def Let_def detect_anomaly_def init_locals_def deque_new_def
  deque_append_def clean_old_data_def DISPLAY_DURATION_def WINDOW_SIZE_def LOWER_BOUND_def
  UPPER_BOUND_def fgt_def

lemmas stats_eval = update_statistics_def update_mean_std_def Let_def init_stats_def
  deque_new_def deque_append_def WINDOW_SIZE_def fsub_def

lemma nonfinite_mean: "\<not> is_finite v \<Longrightarrow> \<not> is_finite (mean (update_statistics v st))"
  by (cases v; cases "mean st") (simp_all add: update_statistics_def update_mean_std_def Let_def fsub_def)

lemma nonfinite_detect:
  "\<not> is_finite v \<Longrightarrow> detect_anomaly v p g = (g \<or> v = PInf \<or> v = NInf)"
  by (cases v) (simp_all add: detect_anomaly_def fgt_def)

subsection \<open>The statistics on a constant stream\<close>

lemma window_nonempty: "maxlen (window st) = Some WINDOW_SIZE \<Longrightarrow>
   items (window (st\<lparr>window := deque_append (window st) v\<rparr>)) \<noteq> []"
  by (cases "items (window st)") (simp_all add: deque_append_def Let_def WINDOW_SIZE_def)

lemma update_mean_std_fresh:
  "items (window st) = [] \<Longrightarrow>
   mean (update_mean_std v st) = v \<and> std_dev (update_mean_std v st) = Fin 0"
  by (simp add: update_mean_std_def)

lemma mean_recurrence_aux:
  assumes "a \<noteq> 0" "b \<noteq> 0" "b = a + 1"
  shows "v * (a - 1) / a + (v - v * (a - 1) / a) / b = v * a / (b::real)"
proof -
  have "v * (a - 1) / a + (v - v * (a - 1) / a) / b = (v * (a - 1) * b + v) / (a * b)"
    using assms(1,2) by (simp add: field_simps)
  also have "v * (a - 1) * b + v = v * a * a" by (simp add: assms(3) algebra_simps)
  also have "v * a * a / (a * b) = v * a / b" using assms(1,2) by simp
  finally show ?thesis .
qed

lemma mean_recurrence:
  "v * real N / (real N + 1) + (v - v * real N / (real N + 1)) / (real N + 2)
     = v * (real N + 1) / (real N + 2)"
  using mean_recurrence_aux[of "real N + 1" "real N + 2" v] by simp

lemma update_statistics_growing:
  assumes "maxlen (window s) = Some 40" "length (items (window s)) < 40"
  shows "maxlen (window (update_statistics v s)) = Some 40"
    and "length (items (window (update_statistics v s))) = Suc (length (items (window s)))"
    and "mean (update_statistics v s)
           = fadd (mean s) (fdiv_count (fsub v (mean s)) (length (items (window s)) + 2))"
  using assms
  by (simp_all add: update_statistics_def update_mean_std_def Let_def deque_append_def)

lemma constant_stream:
  "N \<le> 40 \<Longrightarrow>
   maxlen (window (run_stats (replicate N (Fin v)) init_stats)) = Some 40 \<and>
   length (items (window (run_stats (replicate N (Fin v)) init_stats))) = N \<and>
   mean (run_stats (replicate N (Fin v)) init_stats) = Fin (v * real N / (real N + 1))"
proof (induction N)
  case 0
  show ?case by (simp add: init_stats_def deque_new_def WINDOW_SIZE_def)
next
  case (Suc N)
  let ?s = "run_stats (replicate N (Fin v)) init_stats"
  from Suc have ih: "maxlen (window ?s) = Some 40" "length (items (window ?s)) = N"
    "mean ?s = Fin (v * real N / (real N + 1))" and N: "N < 40" by simp_all
  have "replicate (Suc N) (Fin v) = replicate N (Fin v) @ [Fin v]"
    by (simp add: replicate_append_same)
  then have r: "run_stats (replicate (Suc N) (Fin v)) init_stats = update_statistics (Fin v) ?s"
    by (simp only: run_stats_snoc)
  have lt: "length (items (window ?s)) < 40" using ih(2) N by simp
  note g = update_statistics_growing[OF ih(1) lt, of "Fin v"]
  have "mean (update_statistics (Fin v) ?s)
          = Fin (v * real N / (real N + 1) + (v - v * real N / (real N + 1)) / (real N + 2))"
    unfolding g(3) ih(2,3) by (simp add: fsub_def)
  also have "\<dots> = Fin (v * real (Suc N) / (real (Suc N) + 1))"
  proof -
    have "real (Suc N) = real N + 1" by simp
    moreover have "real N + 1 + 1 = real N + 2" by simp
    ultimately show ?thesis by (simp only: mean_recurrence)
  qed
  finally have m: "mean (update_statistics (Fin v) ?s) = Fin (v * real (Suc N) / (real (Suc N) + 1))" .
  show ?case
    unfolding r using g(1) g(2) ih(2) m by simp
qed

lemma run_anomaly_x:
  "map_option (\<lambda>s. items (anomaly_x (snd s))) (run fmt ins init_state)
     = map_option (\<lambda>l. items (anomaly_x l)) (run_series fmt ins init_locals)"
  by (simp add: run_split init_state_def option.map_comp o_def)

lemma run_mean_std:
  "map_option (\<lambda>s. f (fst s)) (run fmt ins init_state) = Some (f (run_stats (map fst ins) init_stats))"
  using run_total[of fmt ins] by auto

subsection \<open>The window along a run\<close>

lemma run_snoc:
  "run fmt (inps @ [inp]) s =
     (case run fmt inps s of None \<Rightarrow> None | Some s' \<Rightarrow> loop_body fmt inp s')"
  by (induction inps arbitrary: s) (simp_all split: option.splits)

lemma window_update_mean_std: "window (update_mean_std v st) = window st"
  by (simp add: update_mean_std_def Let_def)

lemma window_update_statistics:
  "window (update_statistics v st) = deque_append (window st) v"
  by (simp add: update_statistics_def window_update_mean_std)

lemma run_stats_maxlen: "maxlen (window (run_stats vs st)) = maxlen (window st)"
  by (induction vs arbitrary: st) (simp_all add: window_update_statistics)

lemma deque_append_last:
  assumes "maxlen d = Some m" "0 < m"
  shows "items (deque_append d x) \<noteq> [] \<and> last (items (deque_append d x)) = x"
proof (cases "items d")
  case Nil
  with assms show ?thesis by (simp add: deque_append_def Let_def)
next
  case (Cons y ys)
  with assms show ?thesis by (simp add: deque_append_def Let_def)
qed

section \<open>The claims\<close>

subsection \<open>Running statistics\<close>

text \<open>
  C1. The claim: the first update of a fresh RunningStats, driven by the loop, gives
  \<open>mean = value\<close> and \<open>std = 0\<close>, and the second update gives \<open>std = 1\<close> whatever the
  two values. The loop appends the value to the window before it calls
  \<open>update_mean_std\<close>, so the length read there is already one at the first tick: the
  branch for the empty window is never taken. The first tick with the value 2 gives
  mean 1 and std 1 (for every finite \<open>v\<close>: mean \<open>v / 2\<close>, std 1), and the second tick of
  the stream 0, 0 gives std \<open>sqrt (1 / 2)\<close>, which is not 1.
\<close>

theorem first_updates_off_by_one:
  "map_option (\<lambda>s. (mean (fst s), std_dev (fst s))) (run fmt [(Fin 2, False)] init_state)
     = Some (Fin 1, Fin 1)
   \<and> map_option (\<lambda>s. (mean (fst s), std_dev (fst s))) (run fmt [(Fin v, g)] init_state)
     = Some (Fin (v / 2), Fin 1)
   \<and> map_option (\<lambda>s. std_dev (fst s)) (run fmt [(Fin 0, False), (Fin 0, False)] init_state)
     = Some (Fin (sqrt (1 / 2)))
   \<and> Fin (sqrt (1 / 2)) \<noteq> Fin 1"
proof -
  have a: "map_option (\<lambda>s. (mean (fst s), std_dev (fst s))) (run fmt ins init_state)
      = Some (mean (run_stats (map fst ins) init_stats),
              std_dev (run_stats (map fst ins) init_stats))" for ins
    using run_mean_std[of "\<lambda>st. (mean st, std_dev st)" fmt ins] by simp
  have b: "map_option (\<lambda>s. std_dev (fst s)) (run fmt ins init_state)
      = Some (std_dev (run_stats (map fst ins) init_stats))" for ins
    by (rule run_mean_std)
  show ?thesis
    unfolding a b by (simp add: stats_eval)
qed

text \<open>
  C5. The claim: \<open>N\<close> copies of a constant \<open>v\<close> fed through the loop give \<open>mean = v\<close> for
  every \<open>N \<ge> 1\<close>. With the value appended before the update, the mean after \<open>N\<close> copies
  is \<open>v * N / (N + 1)\<close> while the window is filling (\<open>N \<le> 40\<close>): one copy of 2 gives
  mean 1.
\<close>

theorem constant_stream_mean:
  "N \<le> 40 \<Longrightarrow>
   map_option (\<lambda>s. mean (fst s)) (run fmt (replicate N (Fin v, g)) init_state)
     = Some (Fin (v * real N / (real N + 1)))"
proof -
  assume N: "N \<le> 40"
  have "map fst (replicate N (Fin v, g)) = replicate N (Fin v)" by simp
  then show ?thesis
    using constant_stream[OF N, of v] by (simp add: run_mean_std)
qed

theorem constant_stream_mean_witness:
  "(1::nat) \<le> 40 \<and>
   map_option (\<lambda>s. mean (fst s)) (run (\<lambda>v. ''2.00'') (replicate 1 (Fin 2, False)) init_state)
     = Some (Fin 1) \<and> Fin 1 \<noteq> Fin 2"
  using constant_stream_mean[of 1 "\<lambda>v. ''2.00''" 2 False] by simp

subsection \<open>Non-finite values\<close>

text \<open>
  C2. The claim: a non-finite value is rejected, the statistics keep their state, the
  sample is classified as no anomaly and an error flag is raised. The code has no such
  check. At the first tick, the value plus infinity without the generated flag is
  classified as an anomaly and moves the mean from 0 to infinity.
\<close>

theorem nonfinite_not_rejected:
  "detect_anomaly PInf (Fin 0) False
   \<and> map_option (\<lambda>s. mean (fst s)) (loop_body (\<lambda>v. ''inf'') (PInf, False) init_state) = Some PInf
   \<and> mean (fst init_state) = Fin 0"
proof -
  have "run (\<lambda>v. ''inf'') [(PInf, False)] init_state = loop_body (\<lambda>v. ''inf'') (PInf, False) init_state"
    by (simp split: option.splits)
  then have "map_option (\<lambda>s. mean (fst s)) (loop_body (\<lambda>v. ''inf'') (PInf, False) init_state)
      = Some (mean (run_stats [PInf] init_stats))"
    using run_mean_std[of mean "\<lambda>v. ''inf''" "[(PInf, False)]"] by simp
  then show ?thesis
    by (simp add: stats_eval detect_anomaly_def fgt_def UPPER_BOUND_def LOWER_BOUND_def
          init_state_def)
qed

text \<open>
  C2, as the code has it: a non-finite value is processed like any other. In every state
  the loop reaches, the pass for a non-finite value raises nothing and hands on a state
  from which the run goes on with the next tick; the value has entered the window of the
  statistics as its newest element; the mean of the new state is not finite; and the
  sample is an anomaly exactly when the generated flag is set or the value is an infinity
  (a NaN fails both comparisons with the bounds).
\<close>

theorem nonfinite_processed:
  assumes "\<not> is_finite v" and "run fmt ins init_state = Some s"
  shows "\<exists>s'. loop_body fmt (v, g) s = Some s'
           \<and> run fmt (ins @ [(v, g)]) init_state = Some s'
           \<and> items (window (fst s')) \<noteq> [] \<and> last (items (window (fst s'))) = v
           \<and> \<not> is_finite (mean (fst s'))
           \<and> detect_anomaly v (previous_value (snd s)) g = (g \<or> v = PInf \<or> v = NInf)"
proof -
  from run_total[of fmt ins] assms(2) have inv: "series_inv (snd s)"
    and st: "fst s = run_stats (map fst ins) init_stats" by auto
  have ml: "maxlen (window (fst s)) = Some (40::nat)"
    unfolding st run_stats_maxlen by (simp add: init_stats_def deque_new_def WINDOW_SIZE_def)
  have w: "items (window (update_statistics v (fst s))) \<noteq> []
      \<and> last (items (window (update_statistics v (fst s)))) = v"
    unfolding window_update_statistics using deque_append_last[OF ml, of v] by simp
  from update_series_step[OF inv, of fmt v g] obtain l' where
    "update_series fmt v g (snd s) = Some l'" by blast
  then have lb: "loop_body fmt (v, g) s = Some (update_statistics v (fst s), l')"
    by (simp add: loop_body_def)
  then have r: "run fmt (ins @ [(v, g)]) init_state = Some (update_statistics v (fst s), l')"
    using assms(2) by (simp add: run_snoc)
  have "\<not> is_finite (mean (update_statistics v (fst s)))"
    by (rule nonfinite_mean[OF assms(1)])
  then show ?thesis
    using lb r w nonfinite_detect[OF assms(1)] by simp
qed

theorem nonfinite_processed_witness:
  "\<not> is_finite PInf \<and> run (\<lambda>v. ''inf'') [] init_state = Some init_state \<and>
   (\<exists>s'. loop_body (\<lambda>v. ''inf'') (PInf, False) init_state = Some s'
      \<and> run (\<lambda>v. ''inf'') [(PInf, False)] init_state = Some s'
      \<and> items (window (fst s')) \<noteq> [] \<and> last (items (window (fst s'))) = PInf
      \<and> \<not> is_finite (mean (fst s'))
      \<and> detect_anomaly PInf (previous_value (snd init_state)) False)"
  using nonfinite_processed[of PInf "\<lambda>v. ''inf''" "[]" init_state False] by simp

subsection \<open>Classification\<close>

text \<open>
  C6. The classifier with the bounds -20 and 20: 21 and -21 without the flag are
  anomalies, 0 without the flag is none, 0 with the flag is one. For every value the flag
  forces the answer true, and without the flag the answer is true exactly when the value
  is strictly below the lower bound or strictly above the upper bound.
\<close>

theorem detect_anomaly_bounds:
  "detect_anomaly (Fin 21) p False \<and> detect_anomaly (Fin (- 21)) p False
   \<and> \<not> detect_anomaly (Fin 0) p False \<and> detect_anomaly (Fin 0) p True
   \<and> detect_anomaly v p True
   \<and> detect_anomaly v p False
       = (flt v (Fin (real_of_int LOWER_BOUND)) \<or> fgt v (Fin (real_of_int UPPER_BOUND)))
   \<and> detect_anomaly (Fin x) p False = (x < - 20 \<or> 20 < x)"
  by (simp add: detect_anomaly_def LOWER_BOUND_def UPPER_BOUND_def fgt_def)

text \<open>
  C9. Two calls of the classifier that differ only in the previous value give the same
  answer.
\<close>

theorem detect_anomaly_ignores_previous:
  "detect_anomaly v p g = detect_anomaly v q g"
  by (simp add: detect_anomaly_def)

subsection \<open>The two series\<close>




text \<open>
  C4. One sample per tick for the ticks 1 to 50: the raw-data series at tick 50 holds
  the ticks 11 to 50 with their values. Every timestamp is above 10, and none of the
  ticks 1 to 10 is left.
\<close>

theorem data_series_after_50_ticks:
  assumes "length ins = 50"
  shows "\<exists>st l. run fmt ins init_state = Some (st, l)
     \<and> items (data_x l) = [11..50] \<and> items (data_y l) = map fst (drop 10 ins)
     \<and> (\<forall>x \<in> set (items (data_x l)). 10 < x)
     \<and> set (items (data_x l)) \<inter> {1..10} = {}"
proof -
  from run_total[of fmt ins] obtain l where
    r: "run fmt ins init_state = Some (run_stats (map fst ins) init_stats, l)"
    and inv: "series_inv l" and hist: "hist_inv fmt ins l" by blast
  from hist assms have t: "current_time l = 50" and dy: "items (data_y l) = map fst (drop 10 ins)"
    by (simp_all add: hist_inv_def)
  from inv t have dx: "items (data_x l) = [11..50]" by (simp add: series_inv_def)
  have "\<forall>x \<in> set (items (data_x l)). 10 < x" unfolding dx by simp
  moreover have "set (items (data_x l)) \<inter> {1..10} = {}" unfolding dx by auto
  ultimately show ?thesis using r dx dy by blast
qed

theorem data_series_after_50_ticks_witness:
  "length (replicate 50 (Fin 0, False)) = 50 \<and>
   (\<exists>st l. run (\<lambda>v. ''0.00'') (replicate 50 (Fin 0, False)) init_state = Some (st, l)
     \<and> items (data_x l) = [11..50])"
  using data_series_after_50_ticks[of "replicate 50 (Fin 0, False)" "\<lambda>v. ''0.00''"]
  by auto

text \<open>
  C7. After any number of ticks the timestamps of the raw-data series and of the anomaly
  series are in non-decreasing order.
\<close>

theorem series_timestamps_sorted:
  "\<exists>st l. run fmt ins init_state = Some (st, l)
     \<and> sorted (items (data_x l)) \<and> sorted (items (anomaly_x l))"
proof -
  from run_total[of fmt ins] obtain l where
    r: "run fmt ins init_state = Some (run_stats (map fst ins) init_stats, l)"
    and inv: "series_inv l" and hist: "hist_inv fmt ins l" by blast
  from inv have "sorted (items (data_x l))" by (simp add: series_inv_def)
  moreover from hist have "sorted_wrt (<) (items (anomaly_x l))" by (simp add: hist_inv_def)
  then have "sorted (items (anomaly_x l))" by (rule strict_sorted_imp_sorted)
  ultimately show ?thesis using r by blast
qed

text \<open>
  C8. After any number of ticks, whatever the number of anomalies in a row, the anomaly
  series holds at most \<open>DISPLAY_DURATION = 40\<close> entries. With 41 anomalies in a row
  the append of tick 41 drops the entry of tick 1.
\<close>

theorem anomaly_series_capacity:
  "(\<exists>st l. run fmt ins init_state = Some (st, l)
     \<and> length (items (anomaly_x l)) \<le> DISPLAY_DURATION
     \<and> length (items (anomaly_y l)) \<le> DISPLAY_DURATION
     \<and> length (items (anomaly_labels l)) \<le> DISPLAY_DURATION)
   \<and> map_option (\<lambda>s. items (anomaly_x (snd s)))
       (run (\<lambda>v. ''25.00'') (replicate 41 (Fin 25, True)) init_state) = Some [2..41]"
proof -
  from run_total[of fmt ins] obtain l where
    r: "run fmt ins init_state = Some (run_stats (map fst ins) init_stats, l)"
    and inv: "series_inv l" by blast
  from inv have "length (items (anomaly_x l)) \<le> DISPLAY_DURATION"
    "length (items (anomaly_y l)) \<le> DISPLAY_DURATION"
    "length (items (anomaly_labels l)) \<le> DISPLAY_DURATION"
    by (simp_all add: series_inv_def DISPLAY_DURATION_def)
  with r have first: "\<exists>st l. run fmt ins init_state = Some (st, l)
     \<and> length (items (anomaly_x l)) \<le> DISPLAY_DURATION
     \<and> length (items (anomaly_y l)) \<le> DISPLAY_DURATION
     \<and> length (items (anomaly_labels l)) \<le> DISPLAY_DURATION" by blast
  have "map_option (\<lambda>l. items (anomaly_x l))
      (run_series (\<lambda>v. ''25.00'') (replicate 41 (Fin 25, True)) init_locals) = Some [2..41]"
    by code_simp
  then have "map_option (\<lambda>s. items (anomaly_x (snd s)))
       (run (\<lambda>v. ''25.00'') (replicate 41 (Fin 25, True)) init_state) = Some [2..41]"
    by (simp only: run_anomaly_x)
  with first show ?thesis by blast
qed

text \<open>
  C10. After any number of ticks the three anomaly deques have the same length, and the
  entries at each index come from one and the same sample of the stream: a tick that was
  classified as an anomaly, its value, and the rendering of that value.
\<close>

theorem anomaly_containers_aligned:
  "\<exists>st l. run fmt ins init_state = Some (st, l)
     \<and> length (items (anomaly_y l)) = length (items (anomaly_x l))
     \<and> length (items (anomaly_labels l)) = length (items (anomaly_x l))
     \<and> (\<forall>i < length (items (anomaly_x l)).
          produced fmt ins (items (anomaly_x l) ! i) (items (anomaly_y l) ! i)
            (items (anomaly_labels l) ! i))"
proof -
  from run_total[of fmt ins] obtain l where
    r: "run fmt ins init_state = Some (run_stats (map fst ins) init_stats, l)"
    and inv: "series_inv l" and hist: "hist_inv fmt ins l" by blast
  from inv have "length (items (anomaly_y l)) = length (items (anomaly_x l))"
    "length (items (anomaly_labels l)) = length (items (anomaly_x l))"
    by (simp_all add: series_inv_def)
  moreover from hist have "\<forall>i < length (items (anomaly_x l)).
          produced fmt ins (items (anomaly_x l) ! i) (items (anomaly_y l) ! i)
            (items (anomaly_labels l) ! i)" by (simp add: hist_inv_def)
  ultimately show ?thesis using r by blast
qed

theorem anomaly_containers_aligned_witness:
  "\<exists>st l. run (\<lambda>v. ''25.00'') [(Fin 25, False)] init_state = Some (st, l)
     \<and> 0 < length (items (anomaly_x l))
     \<and> produced (\<lambda>v. ''25.00'') [(Fin 25, False)] (items (anomaly_x l) ! 0)
         (items (anomaly_y l) ! 0) (items (anomaly_labels l) ! 0)"
proof -
  from anomaly_containers_aligned[of "\<lambda>v. ''25.00''" "[(Fin 25, False)]"] obtain st l where
    r: "run (\<lambda>v. ''25.00'') [(Fin 25, False)] init_state = Some (st, l)"
    and al: "\<forall>i < length (items (anomaly_x l)).
          produced (\<lambda>v. ''25.00'') [(Fin 25, False)] (items (anomaly_x l) ! i)
            (items (anomaly_y l) ! i) (items (anomaly_labels l) ! i)" by blast
  from r have "run_series (\<lambda>v. ''25.00'') [(Fin 25, False)] init_locals = Some l"
    by (auto simp: run_split init_state_def)
  then have "items (anomaly_x l) = [1]"
    by (auto simp: series_eval)
  then have pos: "0 < length (items (anomaly_x l))" by simp
  with al have "produced (\<lambda>v. ''25.00'') [(Fin 25, False)] (items (anomaly_x l) ! 0)
         (items (anomaly_y l) ! 0) (items (anomaly_labels l) ! 0)" by blast
  with r pos show ?thesis by blast
qed

end
